theory Spec2Isabelle
  imports Main
begin

section \<open>ConceptNet URIs (conceptnet5/uri.py)\<close>

text \<open>
  The module builds and parses slash-separated URI strings. Every function is pure. A
  Python string is a \<^typ>\<open>string\<close>; the characters a HOL \<^typ>\<open>char\<close> can hold are the code
  points U+0000 to U+00FF. An exception is a value \<open>Inl e\<close> of a sum type, with the
  exception class and its message.
\<close>

datatype error = ValueError string | AttributeError string | IndexError string

subsection \<open>The string methods of Python the module calls\<close>

text \<open>\<open>s.lstrip(c)\<close>, \<open>s.strip(c)\<close> for a single character \<open>c\<close>.\<close>

definition py_lstrip :: "char \<Rightarrow> string \<Rightarrow> string" where
  "py_lstrip c s = dropWhile (\<lambda>x. x = c) s"

definition py_strip :: "char \<Rightarrow> string \<Rightarrow> string" where
  "py_strip c s = rev (dropWhile (\<lambda>x. x = c) (rev (dropWhile (\<lambda>x. x = c) s)))"

text \<open>\<open>sep.join(xs)\<close>.\<close>

fun py_join :: "string \<Rightarrow> string list \<Rightarrow> string" where
  "py_join sep [] = []"
| "py_join sep [x] = x"
| "py_join sep (x # y # ys) = x @ sep @ py_join sep (y # ys)"

text \<open>
  \<open>s.split(c)\<close> for a single character \<open>c\<close>: every occurrence of \<open>c\<close> separates two
  pieces, so the result is never the empty list (\<open>''.split('/') == ['']\<close>).
\<close>

fun py_split :: "char \<Rightarrow> string \<Rightarrow> string list" where
  "py_split c [] = [[]]"
| "py_split c (x # xs) =
     (if x = c then [] # py_split c xs
      else (case py_split c xs of
              [] \<Rightarrow> [[x]]
            | p # ps \<Rightarrow> (x # p) # ps))"

text \<open>\<open>xs.index(x)\<close>: the position of the first occurrence, \<open>None\<close> where Python raises.\<close>

fun py_index :: "'a list \<Rightarrow> 'a \<Rightarrow> nat option" where
  "py_index [] x = None"
| "py_index (y # ys) x = (if y = x then Some 0 else map_option Suc (py_index ys x))"

text \<open>
  \<open>str.isspace\<close> and \<open>str.lower\<close> on the code points below 256, \<open>s.strip()\<close> and
  \<open>s.replace(a, b)\<close> for single characters \<open>a\<close> and \<open>b\<close>.
\<close>

definition isspace :: "char \<Rightarrow> bool" where
  "isspace c =
     (let n = (of_char c :: nat)
      in (9 \<le> n \<and> n \<le> 13) \<or> (28 \<le> n \<and> n \<le> 32) \<or> n = 133 \<or> n = 160)"

definition lower_char :: "char \<Rightarrow> char" where
  "lower_char c =
     (let n = (of_char c :: nat)
      in if (65 \<le> n \<and> n \<le> 90) \<or> (192 \<le> n \<and> n \<le> 222 \<and> n \<noteq> 215)
         then char_of (n + 32) else c)"

definition py_strip_ws :: "string \<Rightarrow> string" where
  "py_strip_ws s = rev (dropWhile isspace (rev (dropWhile isspace s)))"

definition py_lower :: "string \<Rightarrow> string" where
  "py_lower s = map lower_char s"

definition py_replace :: "char \<Rightarrow> char \<Rightarrow> string \<Rightarrow> string" where
  "py_replace a b s = map (\<lambda>c. if c = a then b else c) s"

subsection \<open>normalize_text\<close>

text \<open>
  The argument is either Unicode text or a byte string; \<open>fix_text\<close> is the function of
  the ftfy library, taken as a parameter.
\<close>

datatype pytext = Unicode string | Bytes string

text \<open>Line 48: \<open>fix_text(text).strip().lower().replace(' ', '_')\<close>.\<close>

definition normalize_unicode :: "(string \<Rightarrow> string) \<Rightarrow> string \<Rightarrow> string" where
  "normalize_unicode fix_text t =
     py_replace (CHR '' '') (CHR ''_'') (py_lower (py_strip_ws (fix_text t)))"

definition normalize_text :: "(string \<Rightarrow> string) \<Rightarrow> pytext \<Rightarrow> error + string" where
  "normalize_text fix_text text =
     (case text of
        Bytes b \<Rightarrow> Inl (ValueError ''All texts must be Unicode, not bytes.'')
      | Unicode t \<Rightarrow> Inr (normalize_unicode fix_text t))"

subsection \<open>join_uri\<close>

definition join_uri :: "string list \<Rightarrow> string" where
  "join_uri pieces = CHR ''/'' # py_join ''/'' (map (py_strip (CHR ''/'')) pieces)"

subsection \<open>concept_uri\<close>

definition concept_uri ::
  "(string \<Rightarrow> string) \<Rightarrow> string \<Rightarrow> pytext \<Rightarrow> string option \<Rightarrow> pytext option \<Rightarrow> error + string"
where
  "concept_uri fix_text lang text pos disambiguation =
     (case normalize_text fix_text text of
        Inl e \<Rightarrow> Inl e
      | Inr n_text \<Rightarrow>
          (case pos of
             None \<Rightarrow>
               (case disambiguation of
                  Some d \<Rightarrow> Inl (ValueError ''Disambiguated concepts must have a part of speech'')
                | None \<Rightarrow> Inr (join_uri [''/c'', lang, n_text]))
           | Some p \<Rightarrow>
               (case disambiguation of
                  None \<Rightarrow> Inr (join_uri [''/c'', lang, n_text, p])
                | Some d \<Rightarrow>
                    (case normalize_text fix_text d of
                       Inl e \<Rightarrow> Inl e
                     | Inr n_disambig \<Rightarrow> Inr (join_uri [''/c'', lang, n_text, p, n_disambig])))))"

subsection \<open>compound_uri\<close>

text \<open>The loop over \<open>args\<close>, with its state \<open>first_item\<close> and \<open>items\<close>.\<close>

fun compound_loop :: "bool \<Rightarrow> string list \<Rightarrow> string list \<Rightarrow> string list" where
  "compound_loop first_item items [] = items"
| "compound_loop first_item items (arg # args) =
     (if first_item then compound_loop False (items @ [arg]) args
      else compound_loop False (items @ ['','', arg]) args)"

definition compound_uri :: "string \<Rightarrow> string list \<Rightarrow> string" where
  "compound_uri opr args = join_uri (compound_loop True [opr, ''[''] args @ ['']''])"

subsection \<open>parse_compound_uri\<close>

text \<open>What the parser appends to \<open>chunks\<close> for the pieces collected in \<open>current\<close>.\<close>

definition chunk :: "string list \<Rightarrow> string" where
  "chunk current = CHR ''/'' # py_strip (CHR ''/'') (py_join ''/'' current)"

text \<open>The loop over the pieces of the argument list; its state is \<open>(chunks, current, depth)\<close>.\<close>

fun parse_loop ::
  "string list \<times> string list \<times> int \<Rightarrow> string list \<Rightarrow> string list \<times> string list \<times> int"
where
  "parse_loop st [] = st"
| "parse_loop (chunks, current, depth) (piece # rest) =
     (if piece = '','' \<and> depth = 0 then parse_loop (chunks @ [chunk current], [], depth) rest
      else parse_loop
             (chunks, current @ [piece],
              if piece = ''['' then depth + 1 else if piece = '']'' then depth - 1 else depth)
             rest)"

definition parse_compound_uri :: "string \<Rightarrow> error + (string \<times> string list)" where
  "parse_compound_uri uri =
     (let pieces = py_split (CHR ''/'') (py_lstrip (CHR ''/'') uri)
      in if pieces = [] then Inl (IndexError ''list index out of range'')
         else if last pieces \<noteq> '']'' then Inl (ValueError ''Compound URIs must end with /]'')
         else if ''['' \<notin> set pieces
           then Inl (ValueError
             ''Compound URIs must contain /[/ at the beginning of the argument list'')
         else (case py_index pieces ''['' of
                 None \<Rightarrow> Inl (ValueError ''[ is not in list'')
               | Some list_start \<Rightarrow>
                   (let opr = join_uri (take list_start pieces);
                        (chunks, current, depth) =
                          parse_loop ([], [], 0) (drop (list_start + 1) (butlast pieces))
                    in Inr (opr, if current \<noteq> [] then chunks @ [chunk current] else chunks))))"

subsection \<open>conjunction_uri, disjunction_uri, assertion_uri, and_or_tree\<close>

text \<open>
  \<open>conjunction_uri(*sources)\<close> and \<open>disjunction_uri(*sources)\<close> return their only argument
  as it is, whatever its type, and \<open>and_or_tree\<close> passes them lists; so their arguments
  are Python values, a string or a list. \<open>compound_uri\<close> calls \<open>piece.strip('/')\<close> on
  every argument, which raises AttributeError on a list.
\<close>

datatype pyval = Str string | Lst "pyval list"

fun strings_of :: "pyval list \<Rightarrow> string list option" where
  "strings_of [] = Some []"
| "strings_of (Str s # vs) = map_option (\<lambda>ss. s # ss) (strings_of vs)"
| "strings_of (Lst l # vs) = None"

definition compound_uri_dyn :: "string \<Rightarrow> pyval list \<Rightarrow> error + pyval" where
  "compound_uri_dyn opr args =
     (case strings_of args of
        None \<Rightarrow> Inl (AttributeError ''list object has no attribute strip'')
      | Some ss \<Rightarrow> Inr (Str (compound_uri opr ss)))"

definition conjunction_uri :: "pyval list \<Rightarrow> error + pyval" where
  "conjunction_uri sources =
     (if length sources = 0 then Inl (ValueError ''Conjunctions of 0 things are not allowed'')
      else if length sources = 1 then Inr (sources ! 0)
      else compound_uri_dyn ''/and'' sources)"

definition disjunction_uri :: "pyval list \<Rightarrow> error + pyval" where
  "disjunction_uri sources =
     (if length sources = 0 then Inl (ValueError ''Disjunctions of 0 things are not allowed'')
      else if length sources = 1 then Inr (sources ! 0)
      else compound_uri_dyn ''/or'' sources)"

text \<open>The body of \<open>assertion_uri\<close> is its docstring alone: it returns Python's \<open>None\<close>.\<close>

definition assertion_uri :: "string \<Rightarrow> string list \<Rightarrow> string option" where
  "assertion_uri rel args = None"

text \<open>
  The list comprehension of \<open>and_or_tree\<close>: \<open>conjunction_uri(sublist)\<close> is called with the
  sublist as its single argument; the first exception ends the comprehension.
\<close>

fun and_or_ands :: "pyval list \<Rightarrow> error + pyval list" where
  "and_or_ands [] = Inr []"
| "and_or_ands (sublist # rest) =
     (case conjunction_uri [sublist] of
        Inl e \<Rightarrow> Inl e
      | Inr a \<Rightarrow> (case and_or_ands rest of Inl e \<Rightarrow> Inl e | Inr as \<Rightarrow> Inr (a # as)))"

definition and_or_tree :: "pyval list \<Rightarrow> error + pyval" where
  "and_or_tree list_of_lists =
     (case and_or_ands list_of_lists of
        Inl e \<Rightarrow> Inl e
      | Inr ands \<Rightarrow> disjunction_uri [Lst ands])"

section \<open>The vocabulary of the specification\<close>

text \<open>
  A string starts with exactly one slash; a string ends with a slash; the shape of a URI:
  exactly one leading slash and no trailing slash.
\<close>

definition one_leading_slash :: "string \<Rightarrow> bool" where
  "one_leading_slash s = (take 1 s = ''/'' \<and> take 2 s \<noteq> ''//'')"

definition trailing_slash :: "string \<Rightarrow> bool" where
  "trailing_slash s = (s \<noteq> [] \<and> last s = CHR ''/'')"

definition uri_shape :: "string \<Rightarrow> bool" where
  "uri_shape s = (one_leading_slash s \<and> \<not> trailing_slash s)"

text \<open>The segments of a URI, and the three reserved segments.\<close>

definition segments :: "string \<Rightarrow> string list" where
  "segments u = py_split (CHR ''/'') (py_strip (CHR ''/'') u)"

definition reserved :: "string \<Rightarrow> bool" where
  "reserved seg = (seg = ''['' \<or> seg = '']'' \<or> seg = '','')"

definition no_reserved_segment :: "string \<Rightarrow> bool" where
  "no_reserved_segment u = list_all (\<lambda>seg. \<not> reserved seg) (segments u)"

text \<open>
  The reserved segments of a well-formed URI are those of the compound grammar: every
  \<open>]\<close> closes an earlier \<open>[\<close>, every \<open>[\<close> is closed, and a \<open>,\<close> stands between
  brackets only. \<open>nested d\<close> reads a list of segments at bracket depth \<open>d\<close>.
\<close>

fun nested :: "nat \<Rightarrow> string list \<Rightarrow> bool" where
  "nested d [] = (d = 0)"
| "nested d (seg # segs) =
     (if seg = ''['' then nested (Suc d) segs
      else if seg = '']'' then 0 < d \<and> nested (d - 1) segs
      else if seg = '','' then 0 < d \<and> nested d segs
      else nested d segs)"

definition well_formed_uri :: "string \<Rightarrow> bool" where
  "well_formed_uri u = (uri_shape u \<and> nested 0 (segments u))"

text \<open>
  The sequence of arguments with a \<open>,\<close> segment before every argument except the first,
  in the words of the specification.
\<close>

fun comma_separated :: "string list \<Rightarrow> string list" where
  "comma_separated [] = []"
| "comma_separated [a] = [a]"
| "comma_separated (a # b # bs) = a # '','' # comma_separated (b # bs)"

section \<open>Properties\<close>

subsection \<open>Facts about the Python string methods\<close>

lemma py_split_not_Nil: "py_split c s \<noteq> []"
  by (induction s) (auto split: list.splits)

lemma strings_of_map_Str: "strings_of (map Str ss) = Some ss"
  by (induction ss) simp_all

lemma py_split_append: "py_split c (a @ c # b) = py_split c a @ py_split c b"
  by (induction a) (auto split: list.splits simp: py_split_not_Nil)

lemma py_split_no_sep: "c \<notin> set s \<Longrightarrow> py_split c s = [s]"
  by (induction s) auto

lemma py_split_join:
  "xs \<noteq> [] \<Longrightarrow> py_split c (py_join [c] xs) = concat (map (py_split c) xs)"
  by (induction "[c]" xs rule: py_join.induct) (simp_all add: py_split_append)

lemma py_join_Cons_hd: "py_join sep ((x # p) # ps) = x # py_join sep (p # ps)"
  by (cases ps) simp_all

lemma py_join_split: "py_join [c] (py_split c s) = s"
proof (induction s)
  case Nil
  then show ?case by simp
next
  case (Cons x s)
  obtain p ps where ps: "py_split c s = p # ps"
    using py_split_not_Nil [of c s] by (cases "py_split c s") auto
  with Cons show ?case by (auto simp: py_join_Cons_hd)
qed

lemma py_split_pieces: "p \<in> set (py_split c s) \<Longrightarrow> c \<notin> set p"
  by (induction s arbitrary: p) (auto split: if_splits list.splits)

lemma dropWhile_id: "s = [] \<or> \<not> P (hd s) \<Longrightarrow> dropWhile P s = s"
  by (cases s) auto

lemma strip_ends_gen:
  "rev (dropWhile P (rev (dropWhile P s))) = [] \<or>
   (\<not> P (hd (rev (dropWhile P (rev (dropWhile P s))))) \<and>
    \<not> P (last (rev (dropWhile P (rev (dropWhile P s))))))"
proof -
  define t where "t = dropWhile P s"
  define u where "u = dropWhile P (rev t)"
  have t: "t = [] \<or> \<not> P (hd t)" unfolding t_def using hd_dropWhile [of P s] by blast
  have u: "u = [] \<or> \<not> P (hd u)" unfolding u_def using hd_dropWhile [of P "rev t"] by blast
  have "rev t = takeWhile P (rev t) @ u" unfolding u_def by simp
  then have "t = rev u @ rev (takeWhile P (rev t))"
    by (metis rev_append rev_rev_ident)
  then have "u \<noteq> [] \<Longrightarrow> hd (rev u) = hd t \<and> t \<noteq> []"
    by (metis hd_append2 rev_is_Nil_conv append_is_Nil_conv)
  with t u show ?thesis
    unfolding t_def [symmetric] u_def [symmetric] by (auto simp: last_rev)
qed

lemma strip_id_gen:
  "s = [] \<or> (\<not> P (hd s) \<and> \<not> P (last s)) \<Longrightarrow> rev (dropWhile P (rev (dropWhile P s))) = s"
  by (cases s) (auto simp: dropWhile_id hd_rev dropWhile_append3 split: if_splits)

lemma py_strip_ends:
  "py_strip c s = [] \<or> (hd (py_strip c s) \<noteq> c \<and> last (py_strip c s) \<noteq> c)"
  unfolding py_strip_def using strip_ends_gen [of "\<lambda>x. x = c" s] by simp

lemma py_strip_id: "s = [] \<or> (hd s \<noteq> c \<and> last s \<noteq> c) \<Longrightarrow> py_strip c s = s"
  unfolding py_strip_def using strip_id_gen [of s "\<lambda>x. x = c"] by simp

lemma py_strip_idem: "py_strip c (py_strip c s) = py_strip c s"
  using py_strip_ends [of c s] by (simp add: py_strip_id)

lemma py_strip_no_sep: "c \<notin> set s \<Longrightarrow> py_strip c s = s"
proof (rule py_strip_id)
  assume "c \<notin> set s"
  then show "s = [] \<or> (hd s \<noteq> c \<and> last s \<noteq> c)"
    using hd_in_set [of s] last_in_set [of s] by auto
qed

lemma one_leading_slash_Cons:
  "one_leading_slash (CHR ''/'' # r) = (r = [] \<or> hd r \<noteq> CHR ''/'')"
  by (cases r) (auto simp: one_leading_slash_def)

lemma one_leading_slash_imp: "one_leading_slash s \<Longrightarrow> \<exists>r. s = CHR ''/'' # r"
  by (cases s) (auto simp: one_leading_slash_def)

lemma trailing_slash_Cons:
  "trailing_slash (CHR ''/'' # r) = (r = [] \<or> last r = CHR ''/'')"
  by (auto simp: trailing_slash_def)

lemma uri_shape_Cons:
  "uri_shape (CHR ''/'' # r) = (r \<noteq> [] \<and> hd r \<noteq> CHR ''/'' \<and> last r \<noteq> CHR ''/'')"
  by (auto simp: uri_shape_def one_leading_slash_Cons trailing_slash_Cons)

lemma uri_shape_strip: "uri_shape s \<Longrightarrow> s = CHR ''/'' # py_strip (CHR ''/'') s \<and> py_strip (CHR ''/'') s \<noteq> []"
proof -
  assume a: "uri_shape s"
  then obtain r where r: "s = CHR ''/'' # r"
    using one_leading_slash_imp by (auto simp: uri_shape_def)
  with a have rr: "r \<noteq> []" "hd r \<noteq> CHR ''/''" "last r \<noteq> CHR ''/''"
    by (simp_all add: uri_shape_Cons)
  then have "py_strip (CHR ''/'') s = r"
    unfolding r by (simp add: py_strip_def dropWhile_id hd_rev)
  with r rr show ?thesis by simp
qed

lemma slash_strip_shape:
  "one_leading_slash (CHR ''/'' # py_strip (CHR ''/'') t) \<and>
   (trailing_slash (CHR ''/'' # py_strip (CHR ''/'') t) \<longrightarrow> py_strip (CHR ''/'') t = [])"
  using py_strip_ends [of "CHR ''/''" t]
  by (auto simp: one_leading_slash_Cons trailing_slash_Cons)

lemma py_join_Nil_iff: "py_join [c] xs = [] \<longleftrightarrow> xs = [] \<or> xs = [[]]"
  by (induction "[c]" xs rule: py_join.induct) auto

lemma hd_py_join: "x \<noteq> [] \<Longrightarrow> py_join sep (x # xs) \<noteq> [] \<and> hd (py_join sep (x # xs)) = hd x"
  by (cases xs) auto

subsection \<open>The builders\<close>

text \<open>
  C7. \<open>conjunction_uri\<close> and \<open>disjunction_uri\<close> raise on no source, return a single source
  as it is, and on two or more sources (strings) return \<open>compound_uri\<close> of \<open>/and\<close> and of
  \<open>/or\<close> over them.
\<close>

theorem conjunction_disjunction_contract:
  "conjunction_uri [] = Inl (ValueError ''Conjunctions of 0 things are not allowed'') \<and>
   disjunction_uri [] = Inl (ValueError ''Disjunctions of 0 things are not allowed'') \<and>
   conjunction_uri [v] = Inr v \<and>
   disjunction_uri [v] = Inr v \<and>
   (2 \<le> length ss \<longrightarrow>
      conjunction_uri (map Str ss) = Inr (Str (compound_uri ''/and'' ss)) \<and>
      disjunction_uri (map Str ss) = Inr (Str (compound_uri ''/or'' ss)))"
  by (simp add: conjunction_uri_def disjunction_uri_def compound_uri_dyn_def strings_of_map_Str)

theorem conjunction_disjunction_contract_witness:
  "2 \<le> length [''/s/x'', ''/s/y''] \<and>
   disjunction_uri [Str ''/s/x'', Str ''/s/y''] = Inr (Str ''/or/[/s/x/,/s/y/]'') \<and>
   conjunction_uri [Str ''/s/x'', Str ''/s/y''] = Inr (Str ''/and/[/s/x/,/s/y/]'')"
  using conjunction_disjunction_contract [of "Str ''/s/x''" "[''/s/x'', ''/s/y'']"]
  by (simp add: compound_uri_def join_uri_def py_strip_def)

text \<open>
  C2. \<open>assertion_uri\<close> has no body besides its docstring: on the arguments of its own
  doctest it returns \<open>None\<close>, where \<open>compound_uri\<close> of \<open>/a\<close> over the relation and the
  arguments is the string the doctest expects.
\<close>

theorem assertion_uri_returns_nothing:
  "assertion_uri ''/r/CapableOf'' [''/c/en/cat'', ''/c/en/sleep''] = None \<and>
   compound_uri ''/a'' (''/r/CapableOf'' # [''/c/en/cat'', ''/c/en/sleep''])
     = ''/a/[/r/CapableOf/,/c/en/cat/,/c/en/sleep/]''"
  by (simp add: assertion_uri_def compound_uri_def join_uri_def py_strip_def)

text \<open>
  Each call \<open>conjunction_uri(sublist)\<close> has one argument, and so has
  \<open>disjunction_uri(ands)\<close>: both return that argument.
\<close>

lemma and_or_ands_id: "and_or_ands ls = Inr ls"
  by (induction ls) (simp_all add: conjunction_uri_def)

lemma and_or_tree_returns_argument: "and_or_tree ls = Inr (Lst ls)"
  by (simp add: and_or_tree_def and_or_ands_id disjunction_uri_def)

text \<open>
  C3. On \<open>[['/s/x', '/s/y'], ['/s/z']]\<close> the function \<open>and_or_tree\<close> returns the list of
  lists it was given, not the disjunction of the conjunctions of the inner lists, which
  is the string \<open>/or/[/and/[/s/x/,/s/y/]/,/s/z/]\<close>.
\<close>

theorem and_or_tree_returns_list:
  "and_or_tree [Lst [Str ''/s/x'', Str ''/s/y''], Lst [Str ''/s/z'']]
     = Inr (Lst [Lst [Str ''/s/x'', Str ''/s/y''], Lst [Str ''/s/z'']]) \<and>
   conjunction_uri [Str ''/s/x'', Str ''/s/y''] = Inr (Str ''/and/[/s/x/,/s/y/]'') \<and>
   conjunction_uri [Str ''/s/z''] = Inr (Str ''/s/z'') \<and>
   disjunction_uri [Str ''/and/[/s/x/,/s/y/]'', Str ''/s/z'']
     = Inr (Str ''/or/[/and/[/s/x/,/s/y/]/,/s/z/]'')"
  by (simp add: and_or_tree_def conjunction_uri_def disjunction_uri_def compound_uri_dyn_def
      compound_uri_def join_uri_def py_strip_def)

subsection \<open>join_uri\<close>

lemma join_uri_one_leading_slash:
  "one_leading_slash (join_uri pieces) \<longleftrightarrow>
     \<not> (2 \<le> length pieces \<and> py_strip (CHR ''/'') (hd pieces) = [])"
proof (cases pieces)
  case Nil
  then show ?thesis by (simp add: join_uri_def one_leading_slash_def)
next
  case (Cons p ps)
  show ?thesis
  proof (cases "py_strip (CHR ''/'') p = []")
    case True
    then show ?thesis
      unfolding Cons join_uri_def one_leading_slash_Cons
      by (cases ps) (simp_all add: py_join_Nil_iff)
  next
    case False
    then have "hd (py_strip (CHR ''/'') p) \<noteq> CHR ''/''"
      using py_strip_ends [of "CHR ''/''" p] by simp
    with False show ?thesis
      unfolding Cons join_uri_def one_leading_slash_Cons
      using hd_py_join [of "py_strip (CHR ''/'') p" "''/''" "map (py_strip (CHR ''/'')) ps"]
      by simp
  qed
qed

lemma py_join_ends:
  "(py_join [c] xs = [] \<or> last (py_join [c] xs) = c) \<longleftrightarrow>
     (xs = [] \<or> last xs = [] \<or> last (last xs) = c)"
  by (induction "[c]" xs rule: py_join.induct) auto

lemma join_uri_trailing_slash:
  "trailing_slash (join_uri pieces) \<longleftrightarrow>
     pieces = [] \<or> py_strip (CHR ''/'') (last pieces) = []"
proof (cases "pieces = []")
  case True
  then show ?thesis by (simp add: join_uri_def trailing_slash_def)
next
  case False
  let ?xs = "map (py_strip (CHR ''/'')) pieces"
  have l: "last ?xs = py_strip (CHR ''/'') (last pieces)"
    using False by (simp add: last_map)
  have "trailing_slash (join_uri pieces) \<longleftrightarrow>
          (?xs = [] \<or> last ?xs = [] \<or> last (last ?xs) = CHR ''/'')"
    unfolding join_uri_def trailing_slash_Cons by (rule py_join_ends)
  then show ?thesis
    using False l py_strip_ends [of "CHR ''/''" "last pieces"] by auto
qed

text \<open>
  C4, as the code has it. \<open>join_uri\<close> always starts with a slash; it starts with exactly
  one slash unless there are two or more pieces and the first of them strips to the empty
  string; it ends with a slash only if there is no piece or the final piece strips to the
  empty string; and on no pieces it returns \<open>/\<close>.
\<close>

theorem join_uri_slashes:
  "take 1 (join_uri pieces) = ''/'' \<and>
   (one_leading_slash (join_uri pieces) \<longleftrightarrow>
      \<not> (2 \<le> length pieces \<and> py_strip (CHR ''/'') (hd pieces) = [])) \<and>
   (trailing_slash (join_uri pieces) \<longrightarrow>
      pieces = [] \<or> py_strip (CHR ''/'') (last pieces) = []) \<and>
   join_uri [] = ''/''"
  using join_uri_one_leading_slash [of pieces] join_uri_trailing_slash [of pieces]
  by (simp add: join_uri_def)

theorem join_uri_slashes_witness:
  "one_leading_slash (join_uri [''/r/'', ''AtLocation/'']) \<and>
   \<not> trailing_slash (join_uri [''/r/'', ''AtLocation/'']) \<and>
   \<not> one_leading_slash (join_uri [''//'', ''a'']) \<and>
   trailing_slash (join_uri [''a'', ''/''])"
  using join_uri_slashes [of "[''/r/'', ''AtLocation/'']"] join_uri_slashes [of "[''//'', ''a'']"]
  by (simp add: py_strip_def join_uri_def trailing_slash_def)

text \<open>
  C4 as stated fails: a first piece that strips to the empty string leaves two leading
  slashes, as in \<open>join_uri('/', 'c', 'en')\<close>.
\<close>

theorem join_uri_two_leading_slashes:
  "join_uri [''/'', ''c'', ''en''] = ''//c/en'' \<and> \<not> one_leading_slash (join_uri [''/'', ''c'', ''en''])"
  by (simp add: join_uri_def py_strip_def one_leading_slash_def)

subsection \<open>parse_compound_uri\<close>

lemma py_index_mem: "x \<in> set xs \<Longrightarrow> py_index xs x = Some (length (takeWhile (\<lambda>y. y \<noteq> x) xs))"
  by (induction xs) auto

lemma parse_compound_uri_unfold:
  assumes "pieces = py_split (CHR ''/'') (py_lstrip (CHR ''/'') uri)"
    and "last pieces = '']''" and "''['' \<in> set pieces"
    and "list_start = length (takeWhile (\<lambda>y. y \<noteq> ''['') pieces)"
    and "parse_loop ([], [], 0) (drop (list_start + 1) (butlast pieces)) = (chunks, current, depth)"
  shows "parse_compound_uri uri =
    Inr (join_uri (take list_start pieces),
         if current \<noteq> [] then chunks @ [chunk current] else chunks)"
  using assms py_split_not_Nil [of "CHR ''/''" "py_lstrip (CHR ''/'') uri"]
  by (simp add: parse_compound_uri_def py_index_mem Let_def)

lemma parse_compound_uri_cases:
  assumes "pieces = py_split (CHR ''/'') (py_lstrip (CHR ''/'') uri)"
  shows "(last pieces \<noteq> '']'' \<longrightarrow>
            parse_compound_uri uri = Inl (ValueError ''Compound URIs must end with /]'')) \<and>
         (last pieces = '']'' \<and> ''['' \<notin> set pieces \<longrightarrow>
            parse_compound_uri uri = Inl (ValueError
              ''Compound URIs must contain /[/ at the beginning of the argument list'')) \<and>
         (last pieces = '']'' \<and> ''['' \<in> set pieces \<longrightarrow>
            (\<exists>opr args. parse_compound_uri uri = Inr (opr, args)))"
proof -
  have ne: "pieces \<noteq> []" using assms py_split_not_Nil by simp
  have 1: "parse_compound_uri uri = Inl (ValueError ''Compound URIs must end with /]'')"
    if "last pieces \<noteq> '']''"
    using that ne assms by (simp add: parse_compound_uri_def Let_def)
  have 2: "parse_compound_uri uri = Inl (ValueError
              ''Compound URIs must contain /[/ at the beginning of the argument list'')"
    if "last pieces = '']''" "''['' \<notin> set pieces"
    using that ne assms by (simp add: parse_compound_uri_def Let_def)
  have 3: "\<exists>opr args. parse_compound_uri uri = Inr (opr, args)"
    if "last pieces = '']''" "''['' \<in> set pieces"
  proof -
    obtain chunks current depth where
      "parse_loop ([], [], 0)
         (drop (length (takeWhile (\<lambda>y. y \<noteq> ''['') pieces) + 1) (butlast pieces))
       = (chunks, current, depth)"
      using prod_cases3 by blast
    from parse_compound_uri_unfold [OF assms that refl this] show ?thesis by blast
  qed
  from 1 2 3 show ?thesis by blast
qed

text \<open>
  C6. With \<open>pieces\<close> the segments of the URI stripped of its leading slashes,
  \<open>parse_compound_uri\<close> raises "must end with /]" when the last segment is not \<open>]\<close>,
  else raises "must contain /[/" when no segment is \<open>[\<close>, else returns a pair; so it
  raises if and only if one of the two conditions holds.
\<close>

theorem parse_compound_uri_raises:
  assumes "pieces = py_split (CHR ''/'') (py_lstrip (CHR ''/'') uri)"
  shows "(last pieces \<noteq> '']'' \<longrightarrow>
            parse_compound_uri uri = Inl (ValueError ''Compound URIs must end with /]'')) \<and>
         (last pieces = '']'' \<and> ''['' \<notin> set pieces \<longrightarrow>
            parse_compound_uri uri = Inl (ValueError
              ''Compound URIs must contain /[/ at the beginning of the argument list'')) \<and>
         (last pieces = '']'' \<and> ''['' \<in> set pieces \<longrightarrow>
            (\<exists>opr args. parse_compound_uri uri = Inr (opr, args))) \<and>
         ((\<exists>e. parse_compound_uri uri = Inl e) \<longleftrightarrow>
            last pieces \<noteq> '']'' \<or> ''['' \<notin> set pieces)"
  using parse_compound_uri_cases [OF assms] by (metis Inl_Inr_False)

theorem parse_compound_uri_raises_witness:
  "parse_compound_uri ''/a/b'' = Inl (ValueError ''Compound URIs must end with /]'') \<and>
   parse_compound_uri ''/a/]'' = Inl (ValueError
      ''Compound URIs must contain /[/ at the beginning of the argument list'') \<and>
   (\<exists>opr args. parse_compound_uri ''/a/[/x/]'' = Inr (opr, args))"
  using parse_compound_uri_raises [OF refl, of "''/a/b''"]
    parse_compound_uri_raises [OF refl, of "''/a/]''"]
    parse_compound_uri_raises [OF refl, of "''/a/[/x/]''"]
  by (simp add: py_lstrip_def)

lemma parse_loop_chunks:
  "parse_loop (chunks, current, depth) ps = (chunks', current', depth') \<Longrightarrow>
   a \<in> set chunks' \<Longrightarrow> a \<in> set chunks \<or> (\<exists>c. a = chunk c)"
proof (induction ps arbitrary: chunks current depth)
  case Nil
  then show ?case by simp
next
  case (Cons p ps)
  show ?case
  proof (cases "p = '','' \<and> depth = 0")
    case True
    with Cons.prems have "parse_loop (chunks @ [chunk current], [], depth) ps = (chunks', current', depth')"
      by simp
    from Cons.IH [OF this Cons.prems(2)] show ?thesis by auto
  next
    case False
    with Cons.prems have "parse_loop (chunks, current @ [p],
        if p = ''['' then depth + 1 else if p = '']'' then depth - 1 else depth) ps
        = (chunks', current', depth')"
      by (simp split: if_splits)
    from Cons.IH [OF this Cons.prems(2)] show ?thesis .
  qed
qed

lemma chunk_shape: "one_leading_slash (chunk c) \<and> (trailing_slash (chunk c) \<longrightarrow> chunk c = ''/'')"
  unfolding chunk_def using slash_strip_shape [of "py_join ''/'' c"] by simp

text \<open>
  C10. Every argument a successful \<open>parse_compound_uri\<close> returns starts with exactly
  one slash, and ends with a slash only if it is the string \<open>/\<close>.
\<close>

theorem parse_compound_uri_args_shape:
  assumes "parse_compound_uri uri = Inr (opr, args)" and "a \<in> set args"
  shows "one_leading_slash a \<and> (trailing_slash a \<longrightarrow> a = ''/'')"
proof -
  define pieces where "pieces = py_split (CHR ''/'') (py_lstrip (CHR ''/'') uri)"
  have ok: "last pieces = '']''" "''['' \<in> set pieces"
    using parse_compound_uri_cases [OF pieces_def] assms(1) by auto
  obtain chunks current depth where
    loop: "parse_loop ([], [], 0)
       (drop (length (takeWhile (\<lambda>y. y \<noteq> ''['') pieces) + 1) (butlast pieces))
     = (chunks, current, depth)"
    using prod_cases3 by blast
  from parse_compound_uri_unfold [OF pieces_def ok refl loop] assms(1)
  have "args = (if current \<noteq> [] then chunks @ [chunk current] else chunks)" by simp
  with assms(2) have "a \<in> set chunks \<or> a = chunk current" by (auto split: if_splits)
  with parse_loop_chunks [OF loop] have "\<exists>c. a = chunk c" by auto
  then show ?thesis using chunk_shape by auto
qed

theorem parse_compound_uri_args_shape_witness:
  "parse_compound_uri ''/op/[/,/x/]'' = Inr (''/op'', [''/'', ''/x'']) \<and>
   one_leading_slash ''/'' \<and> trailing_slash ''/'' \<and>
   one_leading_slash ''/x'' \<and> \<not> trailing_slash ''/x''"
proof -
  have p: "parse_compound_uri ''/op/[/,/x/]'' = Inr (''/op'', [''/'', ''/x''])"
    by (simp add: parse_compound_uri_def py_lstrip_def join_uri_def chunk_def py_strip_def)
  show ?thesis
    using p parse_compound_uri_args_shape [OF p, of "''/''"]
      parse_compound_uri_args_shape [OF p, of "''/x''"]
    by (simp add: trailing_slash_def)
qed

subsection \<open>normalize_text and concept_uri\<close>

lemma isspace_lower_char: "isspace (lower_char c) = isspace c"
  by (auto simp: isspace_def lower_char_def Let_def)

lemma lower_char_idem: "lower_char (lower_char c) = lower_char c"
  by (auto simp: lower_char_def Let_def)

lemma lower_char_underscore: "lower_char (CHR ''_'') = CHR ''_''"
  by (simp add: lower_char_def)

lemma py_strip_ws_ends:
  "py_strip_ws s = [] \<or> (\<not> isspace (hd (py_strip_ws s)) \<and> \<not> isspace (last (py_strip_ws s)))"
  unfolding py_strip_ws_def by (rule strip_ends_gen)

lemma py_strip_ws_id: "s = [] \<or> (\<not> isspace (hd s) \<and> \<not> isspace (last s)) \<Longrightarrow> py_strip_ws s = s"
  unfolding py_strip_ws_def by (rule strip_id_gen)

lemma normalize_unicode_ends:
  "normalize_unicode fix_text x = [] \<or>
   (\<not> isspace (hd (normalize_unicode fix_text x)) \<and>
    \<not> isspace (last (normalize_unicode fix_text x)))"
proof -
  define t where "t = py_strip_ws (fix_text x)"
  have t: "t = [] \<or> (\<not> isspace (hd t) \<and> \<not> isspace (last t))"
    unfolding t_def by (rule py_strip_ws_ends)
  have u: "\<not> isspace (CHR ''_'')" by (simp add: isspace_def)
  have "normalize_unicode fix_text x = map (\<lambda>c. if lower_char c = CHR '' '' then CHR ''_'' else lower_char c) t"
    by (simp add: normalize_unicode_def py_replace_def py_lower_def t_def comp_def)
  with t u show ?thesis
    by (cases "t = []") (auto simp: hd_map last_map isspace_lower_char)
qed

lemma normalize_unicode_no_space: "CHR '' '' \<notin> set (normalize_unicode fix_text x)"
  by (auto simp: normalize_unicode_def py_replace_def)

lemma normalize_unicode_lower: "py_lower (normalize_unicode fix_text x) = normalize_unicode fix_text x"
  by (simp add: normalize_unicode_def py_replace_def py_lower_def lower_char_idem lower_char_underscore)

lemma py_replace_id: "a \<notin> set s \<Longrightarrow> py_replace a b s = s"
  by (induction s) (auto simp: py_replace_def)

text \<open>
  C9. On Unicode text \<open>x\<close> (code points below 256), \<open>normalize_text\<close> returns a string
  \<open>y\<close> that neither starts nor ends with whitespace and contains no space; and if
  \<open>fix_text\<close> repairs nothing in \<open>y\<close>, normalizing \<open>y\<close> returns \<open>y\<close>.
\<close>

theorem normalize_text_idempotent:
  assumes "y = normalize_unicode fix_text x"
  shows "normalize_text fix_text (Unicode x) = Inr y \<and>
         (fix_text y = y \<longrightarrow> normalize_text fix_text (Unicode y) = Inr y) \<and>
         (y \<noteq> [] \<longrightarrow> \<not> isspace (hd y) \<and> \<not> isspace (last y)) \<and>
         CHR '' '' \<notin> set y"
proof -
  have e: "y = [] \<or> (\<not> isspace (hd y) \<and> \<not> isspace (last y))"
    unfolding assms by (rule normalize_unicode_ends)
  have s: "CHR '' '' \<notin> set y"
    unfolding assms by (rule normalize_unicode_no_space)
  have l: "py_lower y = y"
    unfolding assms by (rule normalize_unicode_lower)
  have "normalize_unicode fix_text y = y" if "fix_text y = y"
    using that by (simp add: normalize_unicode_def [of fix_text y] py_strip_ws_id [OF e] l
        py_replace_id [OF s])
  with e s show ?thesis
    by (auto simp: normalize_text_def assms)
qed

theorem normalize_text_idempotent_witness:
  "normalize_text (\<lambda>s. s) (Unicode '' Italian supercat  '') = Inr ''italian_supercat'' \<and>
   normalize_text (\<lambda>s. s) (Unicode ''italian_supercat'') = Inr ''italian_supercat'' \<and>
   \<not> isspace (hd ''italian_supercat'') \<and> \<not> isspace (last ''italian_supercat'')"
proof -
  have y: "''italian_supercat'' = normalize_unicode (\<lambda>s. s) '' Italian supercat  ''"
    by code_simp
  show ?thesis
    using normalize_text_idempotent [OF y] by simp
qed

text \<open>
  The hypothesis is about the normalized string: that \<open>fix_text\<close> is the identity on
  its own results would not be enough, since the lower-cased string need not be one.
\<close>

lemma fix_text_idempotent_not_enough:
  "\<exists>fix_text. (\<forall>s. fix_text (fix_text s) = fix_text s) \<and>
     normalize_text fix_text (Unicode ''X'') = Inr ''x'' \<and>
     normalize_text fix_text (Unicode ''x'') = Inr ''y''"
proof -
  let ?f = "\<lambda>s. if s = ''x'' then ''y'' else s"
  have "normalize_unicode ?f ''X'' = ''x''" "normalize_unicode ?f ''x'' = ''y''"
    by code_simp+
  then have "(\<forall>s. ?f (?f s) = ?f s) \<and>
     normalize_text ?f (Unicode ''X'') = Inr ''x'' \<and>
     normalize_text ?f (Unicode ''x'') = Inr ''y''"
    by (simp add: normalize_text_def)
  then show ?thesis by (rule exI [where x = ?f])
qed

text \<open>
  C8. On Unicode text, \<open>concept_uri\<close> raises "Disambiguated concepts must have a part of
  speech" exactly when there is a disambiguation and no part of speech; otherwise it
  returns \<open>join_uri\<close> of \<open>/c\<close>, the language as given, the normalized text, then the part of
  speech as given and the normalized disambiguation, each if present.
\<close>

theorem concept_uri_contract:
  "concept_uri fix_text lang (Unicode text) pos (map_option Unicode dis) =
     (if pos = None \<and> dis \<noteq> None
      then Inl (ValueError ''Disambiguated concepts must have a part of speech'')
      else Inr (join_uri ([''/c'', lang, normalize_unicode fix_text text]
                  @ (case pos of None \<Rightarrow> [] | Some p \<Rightarrow> [p])
                  @ (case dis of None \<Rightarrow> [] | Some d \<Rightarrow> [normalize_unicode fix_text d]))))"
  by (simp add: concept_uri_def normalize_text_def split: option.splits)

theorem concept_uri_contract_witness:
  "concept_uri (\<lambda>s. s) ''en'' (Unicode ''cat'') (Some ''n'') (Some (Unicode ''feline''))
     = Inr ''/c/en/cat/n/feline'' \<and>
   concept_uri (\<lambda>s. s) ''en'' (Unicode ''cat'') None (Some (Unicode ''feline''))
     = Inl (ValueError ''Disambiguated concepts must have a part of speech'')"
proof -
  have n: "normalize_unicode (\<lambda>s. s) ''cat'' = ''cat''"
    "normalize_unicode (\<lambda>s. s) ''feline'' = ''feline''"
    by code_simp+
  show ?thesis
    using concept_uri_contract [of "\<lambda>s. s" "''en''" "''cat''" "Some ''n''" "Some ''feline''"]
      concept_uri_contract [of "\<lambda>s. s" "''en''" "''cat''" None "Some ''feline''"]
    by (simp add: n join_uri_def py_strip_def)
qed

subsection \<open>compound_uri\<close>

lemma compound_loop_False:
  "compound_loop False items args = items @ concat (map (\<lambda>a. ['','', a]) args)"
  by (induction args arbitrary: items) simp_all

lemma comma_separated_Cons:
  "comma_separated (a # as) = a # concat (map (\<lambda>a. ['','', a]) as)"
  by (induction as arbitrary: a) simp_all

lemma compound_loop_True: "compound_loop True items args = items @ comma_separated args"
  by (cases args) (simp_all add: compound_loop_False comma_separated_Cons)

lemma compound_uri_items:
  "compound_uri opr args = join_uri (opr # ''['' # comma_separated args @ ['']''])"
  by (simp add: compound_uri_def compound_loop_True)

text \<open>Joining pieces that have the shape of a URI concatenates them.\<close>

lemma slash_py_join:
  "CHR ''/'' # py_join ''/'' xs = (if xs = [] then ''/'' else concat (map (\<lambda>x. CHR ''/'' # x) xs))"
  by (induction "''/''" xs rule: py_join.induct) simp_all

lemma join_uri_concat:
  "pieces \<noteq> [] \<Longrightarrow>
   join_uri pieces = concat (map (\<lambda>p. CHR ''/'' # py_strip (CHR ''/'') p) pieces)"
  by (simp add: join_uri_def slash_py_join comp_def)

lemma strip_bracket [simp]:
  "py_strip (CHR ''/'') ''['' = ''[''" "py_strip (CHR ''/'') '']'' = '']''"
  "py_strip (CHR ''/'') '','' = '',''"
  by (simp_all add: py_strip_def)

lemma concat_comma_separated:
  "\<forall>a\<in>set args. uri_shape a \<Longrightarrow>
   concat (map (\<lambda>p. CHR ''/'' # py_strip (CHR ''/'') p) (comma_separated args))
     = py_join ''/,'' args"
proof (induction args rule: comma_separated.induct)
  case 1
  then show ?case by simp
next
  case (2 a)
  then show ?case using uri_shape_strip [of a] by simp
next
  case (3 a b bs)
  then show ?case using uri_shape_strip [of a] by simp
qed

lemma compound_uri_string:
  assumes "uri_shape opr" and "\<forall>a\<in>set args. uri_shape a"
  shows "compound_uri opr args = opr @ ''/['' @ py_join ''/,'' args @ ''/]''"
  using uri_shape_strip [OF assms(1)] concat_comma_separated [OF assms(2)]
  by (simp add: compound_uri_items join_uri_concat)

text \<open>
  C5. \<open>compound_uri\<close> joins, with \<open>join_uri\<close>, the operator, a \<open>[\<close> segment, the arguments
  with a \<open>,\<close> segment before each but the first, and a \<open>]\<close> segment. For an operator and
  arguments of the shape of a URI the result is the operator, \<open>/[\<close>, the arguments
  separated by \<open>/,\<close> and \<open>/]\<close>: \<open>op/[/]\<close> for no argument, \<open>op/[\<close> \<open>a1\<close> \<open>/]\<close> for one.
\<close>

theorem compound_uri_shape:
  assumes "uri_shape opr"
  shows "compound_uri opr args = join_uri (opr # ''['' # comma_separated args @ ['']'']) \<and>
         compound_uri opr [] = opr @ ''/[/]'' \<and>
         (uri_shape a1 \<longrightarrow> compound_uri opr [a1] = opr @ ''/['' @ a1 @ ''/]'') \<and>
         ((\<forall>a\<in>set args. uri_shape a) \<longrightarrow>
            compound_uri opr args = opr @ ''/['' @ py_join ''/,'' args @ ''/]'')"
  using compound_uri_string [OF assms, of "[]"] compound_uri_string [OF assms, of "[a1]"]
    compound_uri_string [OF assms, of args]
  by (simp add: compound_uri_items)

theorem compound_uri_shape_witness:
  "uri_shape ''/a'' \<and> uri_shape ''/r/CapableOf'' \<and> uri_shape ''/c/en/cat'' \<and>
   compound_uri ''/a'' [''/r/CapableOf'', ''/c/en/cat'']
     = join_uri [''/a'', ''['', ''/r/CapableOf'', '','', ''/c/en/cat'', '']''] \<and>
   compound_uri ''/a'' [''/r/CapableOf'', ''/c/en/cat''] = ''/a/[/r/CapableOf/,/c/en/cat/]'' \<and>
   compound_uri ''/a'' [] = ''/a/[/]'' \<and>
   compound_uri ''/a'' [''/c/en/cat''] = ''/a/[/c/en/cat/]''"
proof -
  have s: "uri_shape ''/a''" "uri_shape ''/r/CapableOf''" "uri_shape ''/c/en/cat''"
    by (simp_all add: uri_shape_def one_leading_slash_def trailing_slash_def)
  show ?thesis
    using s compound_uri_shape [OF s(1), of "[''/r/CapableOf'', ''/c/en/cat'']" "''/c/en/cat''"]
    by (simp add: join_uri_def py_strip_def)
qed

subsection \<open>The round trip\<close>

lemma segments_reserved [simp]:
  "segments ''['' = [''['']" "segments '']'' = ['']'']" "segments '','' = ['','']"
  by (simp_all add: segments_def)

lemma uri_shape_lstrip: "uri_shape s \<Longrightarrow> py_lstrip (CHR ''/'') s = py_strip (CHR ''/'') s"
proof -
  assume a: "uri_shape s"
  define r where "r = py_strip (CHR ''/'') s"
  from uri_shape_strip [OF a] py_strip_ends [of "CHR ''/''" s]
  have s: "s = CHR ''/'' # r" and r: "r \<noteq> []" "hd r \<noteq> CHR ''/''"
    unfolding r_def by auto
  have "py_lstrip (CHR ''/'') (CHR ''/'' # r) = r"
    using r by (simp add: py_lstrip_def dropWhile_id)
  then show ?thesis
    unfolding r_def [symmetric] using s by simp
qed

text \<open>The pieces the parser splits a compound URI into.\<close>

lemma pieces_of_join_uri:
  assumes "py_strip (CHR ''/'') p \<noteq> []"
  shows "py_split (CHR ''/'') (py_lstrip (CHR ''/'') (join_uri (p # ps)))
           = concat (map segments (p # ps))"
proof -
  let ?xs = "map (py_strip (CHR ''/'')) (p # ps)"
  have h: "hd (py_strip (CHR ''/'') p) \<noteq> CHR ''/''"
    using assms py_strip_ends [of "CHR ''/''" p] by simp
  have "py_join ''/'' ?xs \<noteq> [] \<and> hd (py_join ''/'' ?xs) = hd (py_strip (CHR ''/'') p)"
    using hd_py_join [OF assms, of "''/''" "map (py_strip (CHR ''/'')) ps"] by simp
  then have "py_lstrip (CHR ''/'') (join_uri (p # ps)) = py_join ''/'' ?xs"
    unfolding py_lstrip_def join_uri_def using h by (simp add: dropWhile_id)
  moreover have "py_split (CHR ''/'') (py_join ''/'' ?xs) = concat (map (py_split (CHR ''/'')) ?xs)"
    by (rule py_split_join) simp
  ultimately show ?thesis
    by (simp add: segments_def [abs_def] comp_def)
qed

lemma pieces_of_compound_uri:
  assumes "uri_shape opr"
  shows "py_split (CHR ''/'') (py_lstrip (CHR ''/'') (compound_uri opr args))
           = segments opr @ ''['' # concat (map segments (comma_separated args)) @ ['']'']"
  using pieces_of_join_uri [of opr "''['' # comma_separated args @ ['']'']"]
    uri_shape_strip [OF assms]
  by (simp add: compound_uri_items)

lemma join_uri_segments: "uri_shape u \<Longrightarrow> join_uri (segments u) = u"
proof -
  assume a: "uri_shape u"
  have "map (py_strip (CHR ''/'')) (segments u) = segments u"
    unfolding segments_def
    by (rule map_idI) (simp add: py_split_pieces py_strip_no_sep)
  then have "join_uri (segments u) = CHR ''/'' # py_strip (CHR ''/'') u"
    by (simp add: join_uri_def) (simp add: segments_def py_join_split)
  with uri_shape_strip [OF a] show ?thesis by simp
qed

lemma chunk_segments: "uri_shape u \<Longrightarrow> chunk (segments u) = u"
  using uri_shape_strip [of u]
  by (simp add: chunk_def segments_def py_join_split py_strip_idem)

lemma segments_not_Nil: "segments u \<noteq> []"
  by (simp add: segments_def py_split_not_Nil)

text \<open>The loop of the parser over nested segments, and over a list of arguments.\<close>

lemma parse_loop_append: "parse_loop st (xs @ ys) = parse_loop (parse_loop st xs) ys"
proof (induction xs arbitrary: st)
  case Nil
  then show ?case by simp
next
  case (Cons x xs)
  obtain chunks current depth where st: "st = (chunks, current, depth)"
    using prod_cases3 by blast
  show ?case unfolding st by (simp add: Cons)
qed

lemma parse_loop_nested:
  "nested d segs \<Longrightarrow> parse_loop (chunks, current, int d) segs = (chunks, current @ segs, 0)"
proof (induction segs arbitrary: d current)
  case Nil
  then show ?case by simp
next
  case (Cons seg segs)
  consider "seg = ''[''" | "seg = '']''" | "seg = '',''" | "\<not> reserved seg"
    by (auto simp: reserved_def)
  then show ?case
  proof cases
    case 1
    with Cons.prems have "nested (Suc d) segs" by simp
    from Cons.IH [OF this, of "current @ [seg]"] 1 show ?thesis
      by (simp add: add.commute)
  next
    case 2
    with Cons.prems have d: "0 < d" "nested (d - 1) segs" by simp_all
    from Cons.IH [OF d(2), of "current @ [seg]"] 2 d(1) show ?thesis
      by (simp add: of_nat_diff)
  next
    case 3
    with Cons.prems have d: "0 < d" "nested d segs" by simp_all
    from Cons.IH [OF d(2), of "current @ [seg]"] 3 d(1) show ?thesis by simp
  next
    case 4
    with Cons.prems have "nested d segs" by (simp add: reserved_def)
    from Cons.IH [OF this, of "current @ [seg]"] 4 show ?thesis
      by (simp add: reserved_def)
  qed
qed

lemma parse_loop_args:
  "\<forall>a\<in>set (a0 # args). nested 0 (segments a) \<Longrightarrow>
   parse_loop (chunks, [], 0) (concat (map segments (comma_separated (a0 # args))))
     = (chunks @ map (\<lambda>a. chunk (segments a)) (butlast (a0 # args)),
        segments (last (a0 # args)), 0)"
proof (induction args arbitrary: a0 chunks)
  case Nil
  then show ?case using parse_loop_nested [of 0 "segments a0" chunks "[]"] by simp
next
  case (Cons b bs)
  have a0: "nested 0 (segments a0)" using Cons.prems by simp
  have rest: "\<forall>a\<in>set (b # bs). nested 0 (segments a)" using Cons.prems by simp
  have "parse_loop (chunks, [], 0) (concat (map segments (comma_separated (a0 # b # bs))))
      = parse_loop (parse_loop (chunks, [], 0) (segments a0))
          ('','' # concat (map segments (comma_separated (b # bs))))"
    by (simp add: parse_loop_append)
  also have "\<dots> = parse_loop (chunks @ [chunk (segments a0)], [], 0)
          (concat (map segments (comma_separated (b # bs))))"
    using parse_loop_nested [OF a0, of chunks "[]"] by simp
  also have "\<dots> = ((chunks @ [chunk (segments a0)]) @ map (\<lambda>a. chunk (segments a)) (butlast (b # bs)),
        segments (last (b # bs)), 0)"
    by (rule Cons.IH [OF rest])
  finally show ?case by simp
qed

lemma parse_loop_all_args:
  assumes "\<forall>a\<in>set args. well_formed_uri a"
    and "parse_loop ([], [], 0) (concat (map segments (comma_separated args))) = (chunks, current, depth)"
  shows "(if current \<noteq> [] then chunks @ [chunk current] else chunks) = args"
proof (cases args)
  case Nil
  with assms(2) show ?thesis by simp
next
  case (Cons a0 as)
  have n: "\<forall>a\<in>set (a0 # as). nested 0 (segments a)"
    using assms(1) Cons by (simp add: well_formed_uri_def)
  have c: "\<forall>a\<in>set (a0 # as). chunk (segments a) = a"
    using assms(1) Cons by (simp add: well_formed_uri_def chunk_segments)
  from parse_loop_args [OF n, of "[]"] assms(2) Cons
  have "chunks = map (\<lambda>a. chunk (segments a)) (butlast (a0 # as))"
    "current = segments (last (a0 # as))"
    by simp_all
  moreover have "map (\<lambda>a. chunk (segments a)) (butlast (a0 # as)) = butlast (a0 # as)"
    by (rule map_idI) (use c in_set_butlastD in fastforce)
  moreover have "chunk (segments (last (a0 # as))) = last (a0 # as)"
    using c last_in_set [of "a0 # as"] by blast
  ultimately show ?thesis
    unfolding Cons using segments_not_Nil [of "last (a0 # as)"]
    by (simp only: if_True append_butlast_last_id list.distinct not_False_eq_True)
qed

lemma parse_compound_uri_compound_uri:
  assumes "uri_shape opr" and "''['' \<notin> set (segments opr)"
    and "\<forall>a\<in>set args. well_formed_uri a"
  shows "parse_compound_uri (compound_uri opr args) = Inr (opr, args)"
proof -
  define mid where "mid = concat (map segments (comma_separated args))"
  define pieces where "pieces = segments opr @ ''['' # mid @ ['']'']"
  have p: "pieces = py_split (CHR ''/'') (py_lstrip (CHR ''/'') (compound_uri opr args))"
    unfolding pieces_def mid_def using pieces_of_compound_uri [OF assms(1)] by simp
  have l: "last pieces = '']''" by (simp add: pieces_def)
  have m: "''['' \<in> set pieces" by (simp add: pieces_def)
  have t: "takeWhile (\<lambda>y. y \<noteq> ''['') pieces = segments opr"
    unfolding pieces_def using assms(2) by (auto simp: takeWhile_tail)
  have i: "length (segments opr) = length (takeWhile (\<lambda>y. y \<noteq> ''['') pieces)"
    by (simp add: t)
  have b: "butlast pieces = segments opr @ ''['' # mid"
    unfolding pieces_def by (simp add: butlast_append)
  have d: "drop (length (segments opr) + 1) (butlast pieces) = mid"
    unfolding b by simp
  have loop': "parse_loop ([], [], 0) (drop (length (segments opr) + 1) (butlast pieces))
     = (chunks, current, depth)" if "parse_loop ([], [], 0) mid = (chunks, current, depth)"
    for chunks current depth
    using that by (simp only: d)
  have k: "take (length (segments opr)) pieces = segments opr"
    unfolding pieces_def by simp
  obtain chunks current depth where
    loop: "parse_loop ([], [], 0) mid = (chunks, current, depth)"
    using prod_cases3 by blast
  have "parse_compound_uri (compound_uri opr args) =
    Inr (join_uri (take (length (segments opr)) pieces),
         if current \<noteq> [] then chunks @ [chunk current] else chunks)"
    by (rule parse_compound_uri_unfold [OF p l m i loop' [OF loop]])
  then show ?thesis
    using parse_loop_all_args [OF assms(3) loop [unfolded mid_def]]
    by (simp add: k join_uri_segments [OF assms(1)])
qed

text \<open>A compound URI over well-formed arguments is well-formed, so it can be an argument.\<close>

lemma nested_skip: "\<forall>seg\<in>set xs. \<not> reserved seg \<Longrightarrow> nested d (xs @ ys) = nested d ys"
  by (induction xs) (auto simp: reserved_def)

lemma nested_append: "nested a xs \<Longrightarrow> nested d ys \<Longrightarrow> nested (a + d) (xs @ ys)"
proof (induction xs arbitrary: a)
  case Nil
  then show ?case by simp
next
  case (Cons x xs)
  consider "x = ''[''" | "x = '']''" | "x = '',''" | "\<not> reserved x"
    by (auto simp: reserved_def)
  then show ?case
  proof cases
    case 1
    with Cons.prems have "nested (Suc a) xs" by simp
    from Cons.IH [OF this Cons.prems(2)] 1 show ?thesis by simp
  next
    case 2
    with Cons.prems have a: "0 < a" "nested (a - 1) xs" by simp_all
    from Cons.IH [OF a(2) Cons.prems(2)] 2 a(1) show ?thesis by simp
  next
    case 3
    with Cons.prems have a: "0 < a" "nested a xs" by simp_all
    from Cons.IH [OF a(2) Cons.prems(2)] 3 a(1) show ?thesis by simp
  next
    case 4
    with Cons.prems have "nested a xs" by (simp add: reserved_def)
    from Cons.IH [OF this Cons.prems(2)] 4 show ?thesis by (simp add: reserved_def)
  qed
qed

lemma nested_args:
  "\<forall>a\<in>set args. nested 0 (segments a) \<Longrightarrow>
   nested (Suc 0) (concat (map segments (comma_separated args)) @ ['']''])"
proof (induction args rule: comma_separated.induct)
  case 1
  then show ?case by simp
next
  case (2 a)
  then show ?case using nested_append [of 0 "segments a" "Suc 0" "['']'']"] by simp
next
  case (3 a b bs)
  then have "nested (Suc 0) ('','' # concat (map segments (comma_separated (b # bs))) @ ['']''])"
    by simp
  with 3 show ?case
    using nested_append [of 0 "segments a" "Suc 0"
        "'','' # concat (map segments (comma_separated (b # bs))) @ ['']'']"]
    by simp
qed

lemma well_formed_compound_uri:
  assumes "uri_shape opr" and "no_reserved_segment opr"
    and "\<forall>a\<in>set args. well_formed_uri a"
  shows "well_formed_uri (compound_uri opr args)"
proof -
  have args: "\<forall>a\<in>set args. uri_shape a" "\<forall>a\<in>set args. nested 0 (segments a)"
    using assms(3) by (simp_all add: well_formed_uri_def)
  obtain r where r: "opr = CHR ''/'' # r" "r \<noteq> []" "hd r \<noteq> CHR ''/''"
    using uri_shape_strip [OF assms(1)] py_strip_ends [of "CHR ''/''" opr] by metis
  have "compound_uri opr args = CHR ''/'' # (r @ ''/['' @ py_join ''/,'' args @ ''/]'')"
    using compound_uri_string [OF assms(1) args(1)] r(1) by simp
  then have shape: "uri_shape (compound_uri opr args)"
    using r(2,3) by (simp add: uri_shape_Cons)
  have "segments (compound_uri opr args)
      = segments opr @ ''['' # concat (map segments (comma_separated args)) @ ['']'']"
    using pieces_of_compound_uri [OF assms(1), of args] uri_shape_lstrip [OF shape]
    by (simp add: segments_def)
  moreover have "\<forall>seg\<in>set (segments opr). \<not> reserved seg"
    using assms(2) by (simp add: no_reserved_segment_def list_all_iff)
  ultimately have "nested 0 (segments (compound_uri opr args))"
    using nested_args [OF args(2)] by (simp add: nested_skip)
  with shape show ?thesis by (simp add: well_formed_uri_def)
qed

text \<open>
  C1, as the code has it. For an operator of the shape of a URI (exactly one leading
  slash, no trailing slash) without reserved segments, and arguments that are well-formed
  URIs, parsing the compound URI returns the operator and the arguments; the compound URI
  is itself well-formed, so as an argument of another compound URI it comes back as one
  string.
\<close>

theorem compound_uri_round_trip:
  assumes "uri_shape opr" and "no_reserved_segment opr"
    and "\<forall>a\<in>set args. well_formed_uri a"
  shows "parse_compound_uri (compound_uri opr args) = Inr (opr, args) \<and>
         well_formed_uri (compound_uri opr args)"
proof -
  have "''['' \<notin> set (segments opr)"
    using assms(2) by (auto simp: no_reserved_segment_def list_all_iff reserved_def)
  from parse_compound_uri_compound_uri [OF assms(1) this assms(3)]
    well_formed_compound_uri [OF assms]
  show ?thesis by simp
qed

theorem compound_uri_round_trip_witness:
  "uri_shape ''/or'' \<and> no_reserved_segment ''/or'' \<and>
   well_formed_uri ''/and/[/s/x/,/s/y/]'' \<and> well_formed_uri ''/s/z'' \<and>
   compound_uri ''/or'' [''/and/[/s/x/,/s/y/]'', ''/s/z''] = ''/or/[/and/[/s/x/,/s/y/]/,/s/z/]'' \<and>
   parse_compound_uri ''/or/[/and/[/s/x/,/s/y/]/,/s/z/]''
     = Inr (''/or'', [''/and/[/s/x/,/s/y/]'', ''/s/z''])"
proof -
  have o: "uri_shape ''/or''" "no_reserved_segment ''/or''"
    by code_simp+
  have a: "\<forall>a\<in>set [''/and/[/s/x/,/s/y/]'', ''/s/z'']. well_formed_uri a"
    by code_simp
  have c: "compound_uri ''/or'' [''/and/[/s/x/,/s/y/]'', ''/s/z''] = ''/or/[/and/[/s/x/,/s/y/]/,/s/z/]''"
    by code_simp
  show ?thesis
    using o a c compound_uri_round_trip [OF o a] by simp
qed

text \<open>
  C1 as stated fails for an operator that is not of the shape of a URI: \<open>and\<close> has no
  reserved segment, and comes back as \<open>/and\<close>.
\<close>

theorem compound_uri_round_trip_counterexample:
  "no_reserved_segment ''and'' \<and>
   parse_compound_uri (compound_uri ''and'' []) = Inr (''/and'', []) \<and>
   parse_compound_uri (compound_uri ''and'' []) \<noteq> Inr (''and'', [])"
  by code_simp

end
